theory Spec2Isabelle
  imports Main
begin

section \<open>Strings of the source language\<close>

text \<open>
  A source string is a sequence of code units. The model uses \<^typ>\<open>string\<close>, whose
  characters are the code units U+0000 to U+00FF; the three string methods the parser
  uses are written out for that range.
\<close>

definition isWhiteSpace :: "char \<Rightarrow> bool" where
  \<comment> \<open>the white space and line terminators that \<open>trim\<close> strips, up to U+00FF\<close>
  "isWhiteSpace c = (of_char c \<in> {9, 10, 11, 12, 13, 32, 160 :: nat})"

definition trim :: "string \<Rightarrow> string" where
  "trim s = rev (dropWhile isWhiteSpace (rev (dropWhile isWhiteSpace s)))"

definition lowerChar :: "char \<Rightarrow> char" where
  "lowerChar c =
     (let n = (of_char c :: nat) in
      if (65 \<le> n \<and> n \<le> 90) \<or> (192 \<le> n \<and> n \<le> 222 \<and> n \<noteq> 215)
      then char_of (n + 32) else c)"

definition toLowerCase :: "string \<Rightarrow> string" where
  "toLowerCase s = map lowerChar s"

definition upperChar :: "char \<Rightarrow> string" where
  \<comment> \<open>U+00DF becomes two code units. U+00B5 and U+00FF have their upper case beyond
      U+00FF and stay in place; the result is only ever compared with an ASCII keyword,
      which it differs from either way.\<close>
  "upperChar c =
     (let n = (of_char c :: nat) in
      if (97 \<le> n \<and> n \<le> 122) \<or> (224 \<le> n \<and> n \<le> 254 \<and> n \<noteq> 247)
      then [char_of (n - 32)]
      else if n = 223 then ''SS'' else [c])"

definition toUpperCase :: "string \<Rightarrow> string" where
  "toUpperCase s = concat (map upperChar s)"

section \<open>Expression trees and their evaluation\<close>

datatype TechStackExpression =
    TermExpression string
  | NotExpression TechStackExpression
  | AndExpression TechStackExpression TechStackExpression
  | OrExpression TechStackExpression TechStackExpression

text \<open>
  The tag list of a job may hold null or undefined entries: they are \<open>None\<close>. Optional
  chaining on such an entry gives undefined, which is not strictly equal to any string.
\<close>

definition termMatches :: "string \<Rightarrow> string option \<Rightarrow> bool" where
  "termMatches normalizedTerm tech =
     (case tech of None \<Rightarrow> False | Some t \<Rightarrow> trim (toLowerCase t) = normalizedTerm)"

fun evaluate :: "TechStackExpression \<Rightarrow> string option list \<Rightarrow> bool" where
  "evaluate (TermExpression term) techStack =
     (let normalizedTerm = trim (toLowerCase term)
      in list_ex (termMatches normalizedTerm) techStack)"
| "evaluate (NotExpression e) techStack = (\<not> evaluate e techStack)"
| "evaluate (AndExpression l r) techStack = (evaluate l techStack \<and> evaluate r techStack)"
| "evaluate (OrExpression l r) techStack = (evaluate l techStack \<or> evaluate r techStack)"

section \<open>The tokenizer\<close>

text \<open>
  The loop state is the three local variables \<open>tokens\<close>, \<open>currentToken\<close> and \<open>inQuotes\<close>;
  \<open>tokenize_step\<close> is one pass through the loop body. A buffer that trims to the empty
  string is neither pushed nor cleared.
\<close>

type_synonym tokenizer_state = "string list \<times> string \<times> bool"

fun tokenize_step :: "char \<Rightarrow> tokenizer_state \<Rightarrow> tokenizer_state" where
  "tokenize_step c (toks, cur, inQuotes) =
     (if c = CHR 0x22 then (toks, cur, \<not> inQuotes)
      else if inQuotes then (toks, cur @ [c], inQuotes)
      else if c = CHR ''('' \<or> c = CHR '')'' then
        (if trim cur \<noteq> [] then (toks @ [trim cur] @ [[c]], [], inQuotes)
         else (toks @ [[c]], cur, inQuotes))
      else if c = CHR '' '' \<or> c = CHR 0x09 then
        (if trim cur \<noteq> [] then (toks @ [trim cur], [], inQuotes)
         else (toks, cur, inQuotes))
      else (toks, cur @ [c], inQuotes))"

fun tokenize_finish :: "tokenizer_state \<Rightarrow> string list" where
  "tokenize_finish (toks, cur, inQuotes) =
     (if trim cur \<noteq> [] then toks @ [trim cur] else toks)"

definition tokenize :: "string \<Rightarrow> string list" where
  "tokenize expression = tokenize_finish (fold tokenize_step expression ([], [], False))"

section \<open>The recursive-descent parser\<close>

text \<open>
  The parser object has two fields, the token array and the cursor. \<open>tokens\<close> is assigned
  once per call of \<open>parse\<close>; the productions only read it and move the cursor, so they take
  the token list and the cursor and return the new cursor. A thrown \<open>Error\<close> is the left
  summand: its message, and the cursor as the throw leaves it.
\<close>

record ParseResult =
  expression :: "TechStackExpression option"
  isValid :: bool
  errorMessage :: "string option"

record TechStackExpressionParser =
  tokens :: "string list"
  currentIndex :: nat

type_synonym 'a outcome = "(string \<times> nat) + ('a \<times> nat)"

definition currentToken :: "string list \<Rightarrow> nat \<Rightarrow> string option" where
  "currentToken toks i = (if i < length toks then Some (toks ! i) else None)"

definition isOperator :: "string option \<Rightarrow> string \<Rightarrow> bool" where
  "isOperator token operator =
     (case token of None \<Rightarrow> False | Some t \<Rightarrow> toUpperCase t = toUpperCase operator)"

text \<open>
  The two \<open>while\<close> loops are the functions \<open>parseOrLoop\<close> and \<open>parseAndLoop\<close>, entered with
  the left operand built so far.
\<close>

function
  parseOrExpression :: "string list \<Rightarrow> nat \<Rightarrow> TechStackExpression outcome" and
  parseOrLoop :: "string list \<Rightarrow> TechStackExpression \<Rightarrow> nat \<Rightarrow> TechStackExpression outcome" and
  parseAndExpression :: "string list \<Rightarrow> nat \<Rightarrow> TechStackExpression outcome" and
  parseAndLoop :: "string list \<Rightarrow> TechStackExpression \<Rightarrow> nat \<Rightarrow> TechStackExpression outcome" and
  parseNotExpression :: "string list \<Rightarrow> nat \<Rightarrow> TechStackExpression outcome" and
  parsePrimaryExpression :: "string list \<Rightarrow> nat \<Rightarrow> TechStackExpression outcome"
where
  "parseOrExpression toks i =
     (case parseAndExpression toks i of
        Inl err \<Rightarrow> Inl err
      | Inr (left, j) \<Rightarrow> parseOrLoop toks left j)"
| "parseOrLoop toks left i =
     (if isOperator (currentToken toks i) ''OR'' then
        (case parseAndExpression toks (i + 1) of
           Inl err \<Rightarrow> Inl err
         | Inr (right, j) \<Rightarrow> parseOrLoop toks (OrExpression left right) j)
      else Inr (left, i))"
| "parseAndExpression toks i =
     (case parseNotExpression toks i of
        Inl err \<Rightarrow> Inl err
      | Inr (left, j) \<Rightarrow> parseAndLoop toks left j)"
| "parseAndLoop toks left i =
     (if isOperator (currentToken toks i) ''AND'' then
        (case parseNotExpression toks (i + 1) of
           Inl err \<Rightarrow> Inl err
         | Inr (right, j) \<Rightarrow> parseAndLoop toks (AndExpression left right) j)
      else Inr (left, i))"
| "parseNotExpression toks i =
     (if isOperator (currentToken toks i) ''NOT'' then
        (case parseNotExpression toks (i + 1) of
           Inl err \<Rightarrow> Inl err
         | Inr (e, j) \<Rightarrow> Inr (NotExpression e, j))
      else parsePrimaryExpression toks i)"
| "parsePrimaryExpression toks i =
     (let token = currentToken toks i in
      if token = Some ''('' then
        (case parseOrExpression toks (i + 1) of
           Inl err \<Rightarrow> Inl err
         | Inr (e, j) \<Rightarrow>
             if currentToken toks j \<noteq> Some '')'' then Inl (''Missing closing parenthesis'', j)
             else Inr (e, j + 1))
      else if token = Some '')'' then Inl (''Unexpected closing parenthesis'', i)
      else if token = None \<or> token = Some [] then Inl (''Unexpected end of expression'', i)
      else if isOperator token ''AND'' \<or> isOperator token ''OR''
        then Inl (''Unexpected operator: '' @ the token, i)
      else Inr (TermExpression (the token), i + 1))"
  by pat_completeness auto

abbreviation (input) parser_dom where
  "parser_dom \<equiv>
     parseOrExpression_parseOrLoop_parseAndExpression_parseAndLoop_parseNotExpression_parsePrimaryExpression_dom"

lemma currentToken_Some_less: "currentToken toks i = Some t \<Longrightarrow> i < length toks"
  by (simp add: currentToken_def split: if_splits)

lemma isOperator_less: "isOperator (currentToken toks i) op \<Longrightarrow> i < length toks"
  by (simp add: isOperator_def currentToken_def split: if_splits option.splits)

text \<open>
  Wherever a production is defined and returns a tree, it has moved the cursor forward and
  not past the end; a loop never moves it back. The termination proof rests on this.
\<close>

lemma progress_partial:
  "parser_dom (Inl (Inl (toks, i))) \<Longrightarrow>
     (\<forall>e j. parseOrExpression toks i = Inr (e, j) \<longrightarrow> i < j \<and> j \<le> length toks)"
  "parser_dom (Inl (Inr (Inl (toks, left, i)))) \<Longrightarrow>
     (\<forall>e j. parseOrLoop toks left i = Inr (e, j) \<longrightarrow>
        i \<le> j \<and> (i \<le> length toks \<longrightarrow> j \<le> length toks))"
  "parser_dom (Inl (Inr (Inr (toks, i)))) \<Longrightarrow>
     (\<forall>e j. parseAndExpression toks i = Inr (e, j) \<longrightarrow> i < j \<and> j \<le> length toks)"
  "parser_dom (Inr (Inl (toks, left, i))) \<Longrightarrow>
     (\<forall>e j. parseAndLoop toks left i = Inr (e, j) \<longrightarrow>
        i \<le> j \<and> (i \<le> length toks \<longrightarrow> j \<le> length toks))"
  "parser_dom (Inr (Inr (Inl (toks, i)))) \<Longrightarrow>
     (\<forall>e j. parseNotExpression toks i = Inr (e, j) \<longrightarrow> i < j \<and> j \<le> length toks)"
  "parser_dom (Inr (Inr (Inr (toks, i)))) \<Longrightarrow>
     (\<forall>e j. parsePrimaryExpression toks i = Inr (e, j) \<longrightarrow> i < j \<and> j \<le> length toks)"
proof (induct toks i and toks left i and toks i and toks left i and toks i and toks i
    rule: parseOrExpression_parseOrLoop_parseAndExpression_parseAndLoop_parseNotExpression_parsePrimaryExpression.pinduct)
  case (1 toks i)
  then show ?case
    by (fastforce simp: parseOrExpression.psimps split: sum.splits prod.splits)
next
  case (2 toks left i)
  then show ?case
    by (fastforce simp: parseOrLoop.psimps split: sum.splits prod.splits if_splits
        dest: isOperator_less)
next
  case (3 toks i)
  then show ?case
    by (fastforce simp: parseAndExpression.psimps split: sum.splits prod.splits)
next
  case (4 toks left i)
  then show ?case
    by (fastforce simp: parseAndLoop.psimps split: sum.splits prod.splits if_splits
        dest: isOperator_less)
next
  case (5 toks i)
  then show ?case
    by (fastforce simp: parseNotExpression.psimps split: sum.splits prod.splits if_splits
        dest: isOperator_less)
next
  case (6 toks i)
  then show ?case
    by (fastforce simp: parsePrimaryExpression.psimps Let_def
        split: sum.splits prod.splits if_splits dest: currentToken_Some_less)
qed

text \<open>
  The measure of a call: the tokens left of the cursor first, then the rank of the
  production (\<open>Or\<close> above \<open>And\<close> above \<open>Not\<close> above \<open>Primary\<close>).
\<close>

definition call_measure ::
  "(string list \<times> nat + string list \<times> TechStackExpression \<times> nat + string list \<times> nat) +
   string list \<times> TechStackExpression \<times> nat + string list \<times> nat + string list \<times> nat \<Rightarrow> nat" where
  "call_measure x =
     (case x of
        Inl (Inl (toks, i)) \<Rightarrow> 4 * (length toks - i) + 3
      | Inl (Inr (Inl (toks, left, i))) \<Rightarrow> 4 * (length toks - i) + 3
      | Inl (Inr (Inr (toks, i))) \<Rightarrow> 4 * (length toks - i) + 2
      | Inr (Inl (toks, left, i)) \<Rightarrow> 4 * (length toks - i) + 2
      | Inr (Inr (Inl (toks, i))) \<Rightarrow> 4 * (length toks - i) + 1
      | Inr (Inr (Inr (toks, i))) \<Rightarrow> 4 * (length toks - i))"

lemma parser_dom_total: "parser_dom x"
proof -
  have "All parser_dom"
    apply (relation "measure call_measure")
              apply simp
             apply (simp_all add: call_measure_def)
    subgoal for toks i b x y using progress_partial(3)[of toks i] by (cases b) auto
    subgoal for toks i b x y
      using progress_partial(3)[of toks "Suc i"] isOperator_less[of toks i "''OR''"]
      by (cases b) auto
    subgoal for toks i b x y using progress_partial(5)[of toks i] by (cases b) auto
    subgoal for toks i b x y
      using progress_partial(5)[of toks "Suc i"] isOperator_less[of toks i "''AND''"]
      by (cases b) auto
    subgoal for toks i using isOperator_less[of toks i "''NOT''"] by auto
    subgoal for toks i x using currentToken_Some_less[of toks i "''(''"] by auto
    done
  then show ?thesis ..
qed

termination parseOrExpression
  using parser_dom_total by blast

declare parseOrExpression.simps [simp del] parseOrLoop.simps [simp del]
  parseAndExpression.simps [simp del] parseAndLoop.simps [simp del]
  parseNotExpression.simps [simp del] parsePrimaryExpression.simps [simp del]

text \<open>
  \<open>parse_attempt\<close> is the body of the \<open>try\<close> block; \<open>parse\<close> is the method, taking the
  parser object and returning it with the fields as the call leaves them. A string is
  falsy only when it is empty.
\<close>

definition parse_attempt :: "string list \<Rightarrow> TechStackExpression outcome" where
  "parse_attempt toks =
     (case parseOrExpression toks 0 of
        Inl err \<Rightarrow> Inl err
      | Inr (result, i) \<Rightarrow>
          if i < length toks then Inl (''Unexpected tokens after parsing'', i)
          else Inr (result, i))"

definition parse ::
  "string \<Rightarrow> TechStackExpressionParser \<Rightarrow> ParseResult \<times> TechStackExpressionParser" where
  "parse expr this =
     (if expr = [] \<or> trim expr = [] then
        (\<lparr>expression = None, isValid = True, errorMessage = None\<rparr>, this)
      else
        (let toks = tokenize expr in
         case parse_attempt toks of
           Inr (result, i) \<Rightarrow>
             (\<lparr>expression = Some result, isValid = True, errorMessage = None\<rparr>,
              \<lparr>tokens = toks, currentIndex = i\<rparr>)
         | Inl (msg, i) \<Rightarrow>
             (\<lparr>expression = Some (TermExpression expr), isValid = False,
               errorMessage = Some msg\<rparr>,
              \<lparr>tokens = toks, currentIndex = i\<rparr>)))"

section \<open>Notions used in the statements\<close>

text \<open>The tokenizer never holds a quote character, in a finished token or in the buffer.\<close>

definition quote_free :: "tokenizer_state \<Rightarrow> bool" where
  "quote_free st =
     (case st of (toks, cur, q) \<Rightarrow>
        (\<forall>tok\<in>set toks. CHR 0x22 \<notin> set tok) \<and> CHR 0x22 \<notin> set cur)"

text \<open>A character that the tokenizer, outside quotes, appends to the buffer.\<close>

definition plainChar :: "char \<Rightarrow> bool" where
  "plainChar c = (c \<noteq> CHR 0x22 \<and> c \<noteq> CHR ''('' \<and> c \<noteq> CHR '')'' \<and> c \<noteq> CHR '' '' \<and> c \<noteq> CHR 0x09)"

text \<open>
  The grammar of the specification, as derivations of a token list to a tree:

  \<^verbatim>\<open>Or := And ('OR' And)*    And := Not ('AND' Not)*\<close>

  \<^verbatim>\<open>Not := 'NOT' Not | Primary    Primary := '(' Or ')' | TERM\<close>

  A repetition is read from the left, an operator keyword is any token that \<open>isOperator\<close>
  accepts, and a \<open>TERM\<close> is a token that is not empty, not a parenthesis and not a keyword.
\<close>

definition plainTerm :: "string \<Rightarrow> bool" where
  "plainTerm t =
     (t \<noteq> [] \<and> t \<noteq> ''('' \<and> t \<noteq> '')'' \<and> \<not> isOperator (Some t) ''AND'' \<and>
      \<not> isOperator (Some t) ''OR'' \<and> \<not> isOperator (Some t) ''NOT'')"

inductive
  grammar_Or :: "string list \<Rightarrow> TechStackExpression \<Rightarrow> bool" and
  grammar_And :: "string list \<Rightarrow> TechStackExpression \<Rightarrow> bool" and
  grammar_Not :: "string list \<Rightarrow> TechStackExpression \<Rightarrow> bool" and
  grammar_Primary :: "string list \<Rightarrow> TechStackExpression \<Rightarrow> bool"
where
  Or_single: "grammar_And ts e \<Longrightarrow> grammar_Or ts e"
| Or_more: "grammar_Or ts l \<Longrightarrow> isOperator (Some k) ''OR'' \<Longrightarrow> grammar_And us r \<Longrightarrow>
     grammar_Or (ts @ k # us) (OrExpression l r)"
| And_single: "grammar_Not ts e \<Longrightarrow> grammar_And ts e"
| And_more: "grammar_And ts l \<Longrightarrow> isOperator (Some k) ''AND'' \<Longrightarrow> grammar_Not us r \<Longrightarrow>
     grammar_And (ts @ k # us) (AndExpression l r)"
| Not_not: "isOperator (Some k) ''NOT'' \<Longrightarrow> grammar_Not ts e \<Longrightarrow>
     grammar_Not (k # ts) (NotExpression e)"
| Not_primary: "grammar_Primary ts e \<Longrightarrow> grammar_Not ts e"
| Primary_group: "grammar_Or ts e \<Longrightarrow> grammar_Primary (''('' # ts @ ['')'']) e"
| Primary_term: "plainTerm t \<Longrightarrow> grammar_Primary [t] (TermExpression t)"

text \<open>The tokens from cursor \<open>i\<close> up to, not including, cursor \<open>j\<close>.\<close>

definition slice :: "'a list \<Rightarrow> nat \<Rightarrow> nat \<Rightarrow> 'a list" where
  "slice xs i j = take (j - i) (drop i xs)"

text \<open>The texts of the term nodes of a tree.\<close>

fun termsOf :: "TechStackExpression \<Rightarrow> string list" where
  "termsOf (TermExpression t) = [t]"
| "termsOf (NotExpression e) = termsOf e"
| "termsOf (AndExpression l r) = termsOf l @ termsOf r"
| "termsOf (OrExpression l r) = termsOf l @ termsOf r"


section \<open>The parser against the grammar\<close>

lemma currentToken_append: "currentToken (xs @ ys) (length xs + i) = currentToken ys i"
  by (simp add: currentToken_def)

lemma currentToken_at: "currentToken (xs @ t # ys) (length xs) = Some t"
  by (simp add: currentToken_def)

lemma currentToken_end: "currentToken xs (length xs) = None"
  by (simp add: currentToken_def)

lemma toUpperCase_keywords [simp]:
  "toUpperCase ''AND'' = ''AND''" "toUpperCase ''OR'' = ''OR''" "toUpperCase ''NOT'' = ''NOT''"
  by code_simp+

lemma isOperator_distinct:
  "isOperator (Some k) ''OR'' \<Longrightarrow> \<not> isOperator (Some k) ''AND''"
  "isOperator (Some k) ''OR'' \<Longrightarrow> \<not> isOperator (Some k) ''NOT''"
  "isOperator (Some k) ''AND'' \<Longrightarrow> \<not> isOperator (Some k) ''NOT''"
  "isOperator (Some k) ''AND'' \<Longrightarrow> \<not> isOperator (Some k) ''OR''"
  "isOperator (Some k) ''NOT'' \<Longrightarrow> \<not> isOperator (Some k) ''OR''"
  "isOperator (Some k) ''NOT'' \<Longrightarrow> \<not> isOperator (Some k) ''AND''"
  by (auto simp: isOperator_def)

lemma paren_not_operator:
  "\<not> isOperator (Some ''('') ''AND''" "\<not> isOperator (Some ''('') ''OR''"
  "\<not> isOperator (Some ''('') ''NOT''" "\<not> isOperator (Some '')'') ''AND''"
  "\<not> isOperator (Some '')'') ''OR''" "\<not> isOperator (Some '')'') ''NOT''"
  by code_simp+


lemma parseOrLoop_stop:
  "\<not> isOperator (currentToken toks i) ''OR'' \<Longrightarrow> parseOrLoop toks left i = Inr (left, i)"
  by (simp add: parseOrLoop.simps)

lemma parseAndLoop_stop:
  "\<not> isOperator (currentToken toks i) ''AND'' \<Longrightarrow> parseAndLoop toks left i = Inr (left, i)"
  by (simp add: parseAndLoop.simps)

lemma grammar_complete_aux:
  "(grammar_Or ts e \<longrightarrow>
      (\<forall>toks pre rest. toks = pre @ ts @ rest \<longrightarrow> \<not> isOperator (currentToken rest 0) ''AND'' \<longrightarrow>
         parseOrExpression toks (length pre) = parseOrLoop toks e (length pre + length ts))) \<and>
   (grammar_And ts e \<longrightarrow>
      (\<forall>toks pre rest. toks = pre @ ts @ rest \<longrightarrow>
         parseAndExpression toks (length pre) = parseAndLoop toks e (length pre + length ts))) \<and>
   (grammar_Not ts e \<longrightarrow>
      (\<forall>toks pre rest. toks = pre @ ts @ rest \<longrightarrow>
         parseNotExpression toks (length pre) = Inr (e, length pre + length ts))) \<and>
   (grammar_Primary ts e \<longrightarrow>
      (\<forall>toks pre rest. toks = pre @ ts @ rest \<longrightarrow>
         parsePrimaryExpression toks (length pre) = Inr (e, length pre + length ts)))"
proof (induction rule: grammar_Or_grammar_And_grammar_Not_grammar_Primary.induct)
  case (Or_single ts e)
  show ?case
  proof (intro allI impI)
    fix toks pre rest
    assume toks: "toks = pre @ ts @ rest" and nxt: "\<not> isOperator (currentToken rest 0) ''AND''"
    have "currentToken toks (length pre + length ts) = currentToken rest 0"
      using currentToken_append [of "pre @ ts" rest 0] toks by simp
    with nxt have "parseAndLoop toks e (length pre + length ts) = Inr (e, length pre + length ts)"
      by (simp add: parseAndLoop_stop)
    with Or_single.IH toks
    have "parseAndExpression toks (length pre) = Inr (e, length pre + length ts)" by simp
    then show "parseOrExpression toks (length pre) = parseOrLoop toks e (length pre + length ts)"
      by (simp add: parseOrExpression.simps)
  qed
next
  case (Or_more ts l k us r)
  show ?case
  proof (intro allI impI)
    fix toks pre rest
    assume toks: "toks = pre @ (ts @ k # us) @ rest"
      and nxt: "\<not> isOperator (currentToken rest 0) ''AND''"
    let ?i = "length pre + length ts"
    have toks1: "toks = pre @ ts @ (k # us @ rest)" using toks by simp
    have toks2: "toks = (pre @ ts @ [k]) @ us @ rest" using toks by simp
    have k_not_and: "\<not> isOperator (currentToken (k # us @ rest) 0) ''AND''"
      using Or_more.hyps(2) isOperator_distinct(1) [of k] by (simp add: currentToken_def)
    have 1: "parseOrExpression toks (length pre) = parseOrLoop toks l ?i"
      using Or_more.IH(1) toks1 k_not_and by blast
    have cur: "currentToken toks ?i = Some k"
      using currentToken_at [of "pre @ ts" k "us @ rest"] toks by simp
    have "parseAndExpression toks (length (pre @ ts @ [k])) =
            parseAndLoop toks r (length (pre @ ts @ [k]) + length us)"
      using Or_more.IH(2) toks2 by blast
    moreover have "currentToken toks (length (pre @ ts @ [k]) + length us) = currentToken rest 0"
      using currentToken_append [of "pre @ ts @ [k] @ us" rest 0] toks by (simp add: ac_simps)
    ultimately have 2: "parseAndExpression toks (?i + 1) = Inr (r, ?i + 1 + length us)"
      using nxt by (simp add: parseAndLoop_stop)
    have "parseOrLoop toks l ?i = parseOrLoop toks (OrExpression l r) (?i + 1 + length us)"
      using cur Or_more.hyps(2) 2 by (subst parseOrLoop.simps) simp
    with 1 show "parseOrExpression toks (length pre) =
        parseOrLoop toks (OrExpression l r) (length pre + length (ts @ k # us))"
      by (simp add: add.assoc)
  qed
next
  case (And_single ts e)
  then show ?case by (simp add: parseAndExpression.simps)
next
  case (And_more ts l k us r)
  show ?case
  proof (intro allI impI)
    fix toks pre rest
    assume toks: "toks = pre @ (ts @ k # us) @ rest"
    let ?i = "length pre + length ts"
    have toks1: "toks = pre @ ts @ (k # us @ rest)" using toks by simp
    have toks2: "toks = (pre @ ts @ [k]) @ us @ rest" using toks by simp
    have 1: "parseAndExpression toks (length pre) = parseAndLoop toks l ?i"
      using And_more.IH(1) toks1 by blast
    have cur: "currentToken toks ?i = Some k"
      using currentToken_at [of "pre @ ts" k "us @ rest"] toks by simp
    have "parseNotExpression toks (length (pre @ ts @ [k])) =
            Inr (r, length (pre @ ts @ [k]) + length us)"
      using And_more.IH(2) toks2 by blast
    then have 2: "parseNotExpression toks (?i + 1) = Inr (r, ?i + 1 + length us)" by simp
    have "parseAndLoop toks l ?i = parseAndLoop toks (AndExpression l r) (?i + 1 + length us)"
      using cur And_more.hyps(2) 2 by (subst parseAndLoop.simps) simp
    with 1 show "parseAndExpression toks (length pre) =
        parseAndLoop toks (AndExpression l r) (length pre + length (ts @ k # us))"
      by (simp add: add.assoc)
  qed
next
  case (Not_not k ts e)
  show ?case
  proof (intro allI impI)
    fix toks pre rest
    assume toks: "toks = pre @ (k # ts) @ rest"
    have toks2: "toks = (pre @ [k]) @ ts @ rest" using toks by simp
    have cur: "currentToken toks (length pre) = Some k"
      using currentToken_at [of pre k "ts @ rest"] toks by simp
    have "parseNotExpression toks (length (pre @ [k])) = Inr (e, length (pre @ [k]) + length ts)"
      using Not_not.IH toks2 by blast
    then have "parseNotExpression toks (length pre + 1) = Inr (e, length pre + 1 + length ts)"
      by simp
    then show "parseNotExpression toks (length pre) =
        Inr (NotExpression e, length pre + length (k # ts))"
      using cur Not_not.hyps(1) by (subst parseNotExpression.simps) simp
  qed
next
  case (Not_primary ts e)
  show ?case
  proof (intro allI impI)
    fix toks pre rest
    assume toks: "toks = pre @ ts @ rest"
    from Not_primary.hyps obtain t where cur: "currentToken toks (length pre) = Some t"
      and t: "\<not> isOperator (Some t) ''NOT''"
      by (cases rule: grammar_Primary.cases)
        (use toks in \<open>auto simp: currentToken_at plainTerm_def paren_not_operator\<close>)
    with Not_primary.IH toks show "parseNotExpression toks (length pre) =
        Inr (e, length pre + length ts)"
      by (subst parseNotExpression.simps) simp
  qed
next
  case (Primary_group ts e)
  show ?case
  proof (intro allI impI)
    fix toks pre rest
    assume toks: "toks = pre @ (''('' # ts @ ['')'']) @ rest"
    let ?j = "length pre + 1 + length ts"
    have toks2: "toks = (pre @ [''('']) @ ts @ ('')'' # rest)" using toks by simp
    have cur: "currentToken toks (length pre) = Some ''(''"
      using currentToken_at [of pre "''(''" "ts @ '')'' # rest"] toks by simp
    have close: "currentToken toks ?j = Some '')''"
      using currentToken_at [of "pre @ ''('' # ts" "'')''" rest] toks by simp
    have "\<not> isOperator (currentToken ('')'' # rest) 0) ''AND''"
      by (simp add: currentToken_def paren_not_operator)
    then have "parseOrExpression toks (length (pre @ [''(''])) =
        parseOrLoop toks e (length (pre @ [''('']) + length ts)"
      using Primary_group.IH toks2 by blast
    then have "parseOrExpression toks (length pre + 1) = Inr (e, ?j)"
      using close by (simp add: parseOrLoop_stop paren_not_operator)
    then show "parsePrimaryExpression toks (length pre) =
        Inr (e, length pre + length (''('' # ts @ ['')'']))"
      using cur close by (subst parsePrimaryExpression.simps) simp
  qed
next
  case (Primary_term t)
  show ?case
  proof (intro allI impI)
    fix toks pre rest
    assume toks: "toks = pre @ [t] @ rest"
    have cur: "currentToken toks (length pre) = Some t"
      using currentToken_at [of pre t rest] toks by simp
    then show "parsePrimaryExpression toks (length pre) =
        Inr (TermExpression t, length pre + length [t])"
      using Primary_term.hyps
      by (subst parsePrimaryExpression.simps) (simp add: plainTerm_def)
  qed
qed

lemma grammar_complete:
  assumes "grammar_Or ts e"
  shows "parse_attempt ts = Inr (e, length ts)"
proof -
  have "\<not> isOperator (currentToken [] 0) ''AND''"
    by (simp add: currentToken_def isOperator_def)
  with assms grammar_complete_aux [of ts e]
  have "parseOrExpression ts (length ([]::string list)) =
          parseOrLoop ts e (length ([]::string list) + length ts)"
    by (metis append.right_neutral append_Nil)
  then have "parseOrExpression ts 0 = Inr (e, length ts)"
    by (simp add: parseOrLoop_stop currentToken_end isOperator_def)
  then show ?thesis by (simp add: parse_attempt_def)
qed

lemma slice_append:
  "i \<le> j \<Longrightarrow> j \<le> k \<Longrightarrow> slice xs i k = slice xs i j @ slice xs j k"
proof -
  assume a: "i \<le> j" "j \<le> k"
  then have "k - i = (j - i) + (k - j)" by simp
  then have "take (k - i) (drop i xs) = take (j - i) (drop i xs) @ take (k - j) (drop (j - i) (drop i xs))"
    by (simp add: take_add)
  with a show ?thesis by (simp add: slice_def)
qed

lemma slice_single: "i < length xs \<Longrightarrow> slice xs i (Suc i) = [xs ! i]"
  by (simp add: slice_def take_Suc_conv_app_nth hd_drop_conv_nth take_Suc)

lemma slice_whole: "slice xs 0 (length xs) = xs"
  by (simp add: slice_def)

lemma currentToken_nth: "currentToken toks i = Some t \<Longrightarrow> i < length toks \<and> toks ! i = t"
  by (simp add: currentToken_def split: if_splits)

lemma progress:
  "parseOrExpression toks i = Inr (e, j) \<Longrightarrow> i < j \<and> j \<le> length toks"
  "parseOrLoop toks left i = Inr (e, j) \<Longrightarrow> i \<le> j \<and> (i \<le> length toks \<longrightarrow> j \<le> length toks)"
  "parseAndExpression toks i = Inr (e, j) \<Longrightarrow> i < j \<and> j \<le> length toks"
  "parseAndLoop toks left i = Inr (e, j) \<Longrightarrow> i \<le> j \<and> (i \<le> length toks \<longrightarrow> j \<le> length toks)"
  "parseNotExpression toks i = Inr (e, j) \<Longrightarrow> i < j \<and> j \<le> length toks"
  "parsePrimaryExpression toks i = Inr (e, j) \<Longrightarrow> i < j \<and> j \<le> length toks"
  using progress_partial(1) [OF parser_dom_total, of toks i]
    progress_partial(2) [OF parser_dom_total, of toks left i]
    progress_partial(3) [OF parser_dom_total, of toks i]
    progress_partial(4) [OF parser_dom_total, of toks left i]
    progress_partial(5) [OF parser_dom_total, of toks i]
    progress_partial(6) [OF parser_dom_total, of toks i]
  by simp_all

lemma parseOrLoop_step:
  "isOperator (currentToken toks i) ''OR'' \<Longrightarrow>
     parseOrLoop toks left i =
       (case parseAndExpression toks (i + 1) of
          Inl err \<Rightarrow> Inl err
        | Inr (right, j) \<Rightarrow> parseOrLoop toks (OrExpression left right) j)"
  by (subst parseOrLoop.simps) simp

lemma parseAndLoop_step:
  "isOperator (currentToken toks i) ''AND'' \<Longrightarrow>
     parseAndLoop toks left i =
       (case parseNotExpression toks (i + 1) of
          Inl err \<Rightarrow> Inl err
        | Inr (right, j) \<Rightarrow> parseAndLoop toks (AndExpression left right) j)"
  by (subst parseAndLoop.simps) simp

lemma parseNot_step:
  "isOperator (currentToken toks i) ''NOT'' \<Longrightarrow>
     parseNotExpression toks i =
       (case parseNotExpression toks (i + 1) of
          Inl err \<Rightarrow> Inl err
        | Inr (e, j) \<Rightarrow> Inr (NotExpression e, j))"
  by (subst parseNotExpression.simps) simp

lemma parseNot_primary:
  "\<not> isOperator (currentToken toks i) ''NOT'' \<Longrightarrow>
     parseNotExpression toks i = parsePrimaryExpression toks i"
  by (subst parseNotExpression.simps) simp

lemma grammar_sound_aux:
  "(\<forall>e j. parseOrExpression toks i = Inr (e, j) \<longrightarrow> grammar_Or (slice toks i j) e)"
  "(\<forall>i0 e j. i0 \<le> i \<longrightarrow> grammar_Or (slice toks i0 i) left \<longrightarrow>
      parseOrLoop toks left i = Inr (e, j) \<longrightarrow> grammar_Or (slice toks i0 j) e)"
  "(\<forall>e j. parseAndExpression toks i = Inr (e, j) \<longrightarrow> grammar_And (slice toks i j) e)"
  "(\<forall>i0 e j. i0 \<le> i \<longrightarrow> grammar_And (slice toks i0 i) left \<longrightarrow>
      parseAndLoop toks left i = Inr (e, j) \<longrightarrow> grammar_And (slice toks i0 j) e)"
  "(\<forall>e j. parseNotExpression toks i = Inr (e, j) \<longrightarrow> grammar_Not (slice toks i j) e)"
  "(\<forall>e j. \<not> isOperator (currentToken toks i) ''NOT'' \<longrightarrow>
      parsePrimaryExpression toks i = Inr (e, j) \<longrightarrow> grammar_Primary (slice toks i j) e)"
proof (induct toks i and toks left i and toks i and toks left i and toks i and toks i
    rule: parseOrExpression_parseOrLoop_parseAndExpression_parseAndLoop_parseNotExpression_parsePrimaryExpression.induct)
  case (1 toks i)
  show ?case
  proof (intro allI impI)
    fix e j assume r: "parseOrExpression toks i = Inr (e, j)"
    then obtain l k where a: "parseAndExpression toks i = Inr (l, k)"
      and b: "parseOrLoop toks l k = Inr (e, j)"
      by (auto simp: parseOrExpression.simps split: sum.splits)
    have "grammar_Or (slice toks i k) l" using 1(1) a by (simp add: Or_single)
    moreover have "i \<le> k" using progress(3) [OF a] by simp
    ultimately show "grammar_Or (slice toks i j) e" using 1(2) [OF a refl] b by blast
  qed
next
  case (2 toks left i)
  show ?case
  proof (intro allI impI)
    fix i0 e j
    assume i0: "i0 \<le> i" and g: "grammar_Or (slice toks i0 i) left"
      and r: "parseOrLoop toks left i = Inr (e, j)"
    show "grammar_Or (slice toks i0 j) e"
    proof (cases "isOperator (currentToken toks i) ''OR''")
      case False
      with r g show ?thesis by (simp add: parseOrLoop_stop)
    next
      case True
      then obtain k where k: "currentToken toks i = Some k" by (auto simp: isOperator_def split: option.splits)
      then have ik: "i < length toks" "toks ! i = k" using currentToken_nth by auto
      from r True obtain rt m where a: "parseAndExpression toks (i + 1) = Inr (rt, m)"
        and b: "parseOrLoop toks (OrExpression left rt) m = Inr (e, j)"
        by (auto simp: parseOrLoop_step split: sum.splits)
      have m: "i + 1 < m" "m \<le> length toks" using progress(3) [OF a] by auto
      have ga: "grammar_And (slice toks (i + 1) m) rt" using 2(1) [OF True] a by simp
      have "slice toks i0 m = slice toks i0 i @ slice toks i (Suc i) @ slice toks (Suc i) m"
        using i0 m slice_append [of i0 i m toks] slice_append [of i "Suc i" m toks] by simp
      then have "slice toks i0 m = slice toks i0 i @ k # slice toks (i + 1) m"
        using ik by (simp add: slice_single)
      moreover have "grammar_Or (slice toks i0 i @ k # slice toks (i + 1) m) (OrExpression left rt)"
        using g True k ga by (auto intro: Or_more)
      ultimately have "grammar_Or (slice toks i0 m) (OrExpression left rt)" by simp
      moreover have "i0 \<le> m" using i0 m by simp
      ultimately show ?thesis using 2(2) [OF True a refl] b by blast
    qed
  qed
next
  case (3 toks i)
  show ?case
  proof (intro allI impI)
    fix e j assume r: "parseAndExpression toks i = Inr (e, j)"
    then obtain l k where a: "parseNotExpression toks i = Inr (l, k)"
      and b: "parseAndLoop toks l k = Inr (e, j)"
      by (auto simp: parseAndExpression.simps split: sum.splits)
    have "grammar_And (slice toks i k) l" using 3(1) a by (simp add: And_single)
    moreover have "i \<le> k" using progress(5) [OF a] by simp
    ultimately show "grammar_And (slice toks i j) e" using 3(2) [OF a refl] b by blast
  qed
next
  case (4 toks left i)
  show ?case
  proof (intro allI impI)
    fix i0 e j
    assume i0: "i0 \<le> i" and g: "grammar_And (slice toks i0 i) left"
      and r: "parseAndLoop toks left i = Inr (e, j)"
    show "grammar_And (slice toks i0 j) e"
    proof (cases "isOperator (currentToken toks i) ''AND''")
      case False
      with r g show ?thesis by (simp add: parseAndLoop_stop)
    next
      case True
      then obtain k where k: "currentToken toks i = Some k" by (auto simp: isOperator_def split: option.splits)
      then have ik: "i < length toks" "toks ! i = k" using currentToken_nth by auto
      from r True obtain rt m where a: "parseNotExpression toks (i + 1) = Inr (rt, m)"
        and b: "parseAndLoop toks (AndExpression left rt) m = Inr (e, j)"
        by (auto simp: parseAndLoop_step split: sum.splits)
      have m: "i + 1 < m" "m \<le> length toks" using progress(5) [OF a] by auto
      have ga: "grammar_Not (slice toks (i + 1) m) rt" using 4(1) [OF True] a by simp
      have "slice toks i0 m = slice toks i0 i @ slice toks i (Suc i) @ slice toks (Suc i) m"
        using i0 m slice_append [of i0 i m toks] slice_append [of i "Suc i" m toks] by simp
      then have "slice toks i0 m = slice toks i0 i @ k # slice toks (i + 1) m"
        using ik by (simp add: slice_single)
      moreover have "grammar_And (slice toks i0 i @ k # slice toks (i + 1) m) (AndExpression left rt)"
        using g True k ga by (auto intro: And_more)
      ultimately have "grammar_And (slice toks i0 m) (AndExpression left rt)" by simp
      moreover have "i0 \<le> m" using i0 m by simp
      ultimately show ?thesis using 4(2) [OF True a refl] b by blast
    qed
  qed
next
  case (5 toks i)
  show ?case
  proof (intro allI impI)
    fix e j assume r: "parseNotExpression toks i = Inr (e, j)"
    show "grammar_Not (slice toks i j) e"
    proof (cases "isOperator (currentToken toks i) ''NOT''")
      case True
      then obtain k where k: "currentToken toks i = Some k" by (auto simp: isOperator_def split: option.splits)
      then have ik: "i < length toks" "toks ! i = k" using currentToken_nth by auto
      from r True obtain e' where a: "parseNotExpression toks (i + 1) = Inr (e', j)"
        and e: "e = NotExpression e'"
        by (auto simp: parseNot_step split: sum.splits)
      have m: "i + 1 < j" "j \<le> length toks" using progress(5) [OF a] by auto
      have "slice toks i j = slice toks i (Suc i) @ slice toks (Suc i) j"
        using m slice_append [of i "Suc i" j toks] by simp
      then have "slice toks i j = k # slice toks (i + 1) j" using ik by (simp add: slice_single)
      moreover have "grammar_Not (slice toks (i + 1) j) e'" using 5(1) [OF True] a by simp
      ultimately show ?thesis using True k e by (auto intro: Not_not)
    next
      case False
      with r have "parsePrimaryExpression toks i = Inr (e, j)"
        by (simp add: parseNot_primary)
      with 5(2) [OF False] False show ?thesis by (simp add: Not_primary)
    qed
  qed
next
  case (6 toks i)
  show ?case
  proof (intro allI impI)
    fix e j
    assume n: "\<not> isOperator (currentToken toks i) ''NOT''"
      and r: "parsePrimaryExpression toks i = Inr (e, j)"
    show "grammar_Primary (slice toks i j) e"
    proof (cases "currentToken toks i = Some ''(''")
      case True
      then have ik: "i < length toks" "toks ! i = ''(''" using currentToken_nth by auto
      from r True obtain m where a: "parseOrExpression toks (i + 1) = Inr (e, m)"
        and c: "currentToken toks m = Some '')''" and j: "j = m + 1"
        by (auto simp: parsePrimaryExpression.simps split: sum.splits if_splits)
      have m: "i + 1 < m" "m < length toks" "toks ! m = '')''"
        using progress(1) [OF a] currentToken_nth [OF c] by auto
      have "slice toks i j = slice toks i (Suc i) @ slice toks (Suc i) m @ slice toks m (Suc m)"
        using m j slice_append [of i "Suc i" j toks] slice_append [of "Suc i" m j toks] by simp
      then have "slice toks i j = ''('' # slice toks (i + 1) m @ ['')'']"
        using ik m by (simp add: slice_single)
      moreover have "grammar_Or (slice toks (i + 1) m) e" using 6 [OF refl True] a by simp
      ultimately show ?thesis by (auto intro: Primary_group)
    next
      case False
      with r obtain t where t: "currentToken toks i = Some t" "t \<noteq> []" "t \<noteq> '')''"
        "\<not> isOperator (Some t) ''AND''" "\<not> isOperator (Some t) ''OR''"
        and e: "e = TermExpression t" "j = i + 1"
        by (auto simp: parsePrimaryExpression.simps Let_def split: if_splits)
      then have ik: "i < length toks" "toks ! i = t" using currentToken_nth by auto
      have "plainTerm t" using t False n by (simp add: plainTerm_def)
      then show ?thesis using e ik by (simp add: slice_single Primary_term)
    qed
  qed
qed

lemma grammar_sound:
  assumes "parse_attempt ts = Inr (e, j)"
  shows "grammar_Or ts e \<and> j = length ts"
proof -
  from assms have a: "parseOrExpression ts 0 = Inr (e, j)" and "\<not> j < length ts"
    by (auto simp: parse_attempt_def split: sum.splits if_splits)
  with progress(1) [OF a] have j: "j = length ts" by simp
  with grammar_sound_aux(1) [of ts 0] a show ?thesis by (simp add: slice_whole)
qed

section \<open>Precedence\<close>

lemma grammar_Primary_shape:
  "grammar_Primary ts e \<Longrightarrow> (\<exists>t. e = TermExpression t) \<or> (\<exists>us. ts = ''('' # us @ ['')''])"
  by (cases rule: grammar_Primary.cases) auto

lemma grammar_Not_shape:
  "grammar_Not ts e \<Longrightarrow>
     (\<exists>t. e = TermExpression t) \<or> (\<exists>e'. e = NotExpression e') \<or> (\<exists>us. ts = ''('' # us @ ['')''])"
  by (cases rule: grammar_Not.cases) (auto dest: grammar_Primary_shape)

lemma grammar_And_shape:
  "grammar_And ts e \<Longrightarrow>
     (\<forall>l r. e \<noteq> OrExpression l r) \<or> (\<exists>us. ts = ''('' # us @ ['')''])"
  by (cases rule: grammar_And.cases) (auto dest: grammar_Not_shape)

lemma valid_parse_attempt:
  "isValid (fst (parse s this)) \<Longrightarrow> expression (fst (parse s this)) = Some e \<Longrightarrow>
     \<exists>j. parse_attempt (tokenize s) = Inr (e, j)"
  by (auto simp: parse_def Let_def split: if_splits sum.splits)

text \<open>
  C2. The parser follows the grammar, whose levels are, from the loosest, \<open>OR\<close>, \<open>AND\<close>,
  \<open>NOT\<close>, and then a term or a parenthesised group: the tree of every input that parses is
  a derivation of its tokens. In a derivation an \<open>OR\<close> tree is an operand of \<open>AND\<close>, and an
  \<open>AND\<close> or \<open>OR\<close> tree an operand of \<open>NOT\<close>, only as a parenthesised group. So for all
  terms \<open>a\<close>, \<open>b\<close>, \<open>c\<close> the tokens \<open>a OR b AND c\<close> give \<open>Or(a, And(b, c))\<close>,
  \<open>NOT a AND b\<close> gives \<open>And(Not(a), b)\<close>, and \<open>(a OR b) AND c\<close> gives \<open>And(Or(a, b), c)\<close>.
  \<open>Java OR Python AND Django\<close> parses to \<open>Or(Term(Java), And(Term(Python), Term(Django)))\<close>,
  true on the tags \<open>Python\<close>, \<open>Django\<close>, and \<open>NOT NOT X\<close> parses to \<open>Not(Not(Term(X)))\<close>.
\<close>

theorem precedence_by_grammar:
  "(isValid (fst (parse s this)) \<and> expression (fst (parse s this)) = Some e \<longrightarrow>
      grammar_Or (tokenize s) e) \<and>
   (grammar_And ts (OrExpression l r) \<longrightarrow> (\<exists>us. ts = ''('' # us @ ['')''])) \<and>
   (grammar_Not ts (OrExpression l r) \<or> grammar_Not ts (AndExpression l r) \<longrightarrow>
      (\<exists>us. ts = ''('' # us @ ['')''])) \<and>
   (plainTerm a \<and> plainTerm b \<and> plainTerm c \<longrightarrow>
      parse_attempt [a, ''OR'', b, ''AND'', c] =
        Inr (OrExpression (TermExpression a) (AndExpression (TermExpression b) (TermExpression c)), 5) \<and>
      parse_attempt [''NOT'', a, ''AND'', b] =
        Inr (AndExpression (NotExpression (TermExpression a)) (TermExpression b), 4) \<and>
      parse_attempt [''('', a, ''OR'', b, '')'', ''AND'', c] =
        Inr (AndExpression (OrExpression (TermExpression a) (TermExpression b)) (TermExpression c), 7)) \<and>
   fst (parse ''Java OR Python AND Django'' this) =
     \<lparr>expression = Some (OrExpression (TermExpression ''Java'')
        (AndExpression (TermExpression ''Python'') (TermExpression ''Django''))),
      isValid = True, errorMessage = None\<rparr> \<and>
   evaluate (OrExpression (TermExpression ''Java'')
        (AndExpression (TermExpression ''Python'') (TermExpression ''Django'')))
     [Some ''Python'', Some ''Django''] \<and>
   fst (parse ''NOT NOT X'' this) =
     \<lparr>expression = Some (NotExpression (NotExpression (TermExpression ''X''))),
      isValid = True, errorMessage = None\<rparr>"
proof -
  have 1: "grammar_Or (tokenize s) e"
    if "isValid (fst (parse s this))" "expression (fst (parse s this)) = Some e"
    using valid_parse_attempt [OF that] grammar_sound by blast
  have 2: "\<exists>us. ts = ''('' # us @ ['')'']" if "grammar_And ts (OrExpression l r)"
    using grammar_And_shape [OF that] by simp
  have 3: "\<exists>us. ts = ''('' # us @ ['')'']"
    if "grammar_Not ts (OrExpression l r) \<or> grammar_Not ts (AndExpression l r)"
    using that grammar_Not_shape by fastforce
  have kw: "isOperator (Some ''OR'') ''OR''" "isOperator (Some ''AND'') ''AND''"
    "isOperator (Some ''NOT'') ''NOT''"
    by (simp_all add: isOperator_def)
  have 4: "parse_attempt [a, ''OR'', b, ''AND'', c] =
        Inr (OrExpression (TermExpression a) (AndExpression (TermExpression b) (TermExpression c)), 5)"
    "parse_attempt [''NOT'', a, ''AND'', b] =
        Inr (AndExpression (NotExpression (TermExpression a)) (TermExpression b), 4)"
    "parse_attempt [''('', a, ''OR'', b, '')'', ''AND'', c] =
        Inr (AndExpression (OrExpression (TermExpression a) (TermExpression b)) (TermExpression c), 7)"
    if p: "plainTerm a" "plainTerm b" "plainTerm c"
  proof -
    have n: "grammar_Not [a] (TermExpression a)" "grammar_Not [b] (TermExpression b)"
      "grammar_Not [c] (TermExpression c)"
      using p by (auto intro: Not_primary Primary_term)
    have "grammar_And ([b] @ ''AND'' # [c]) (AndExpression (TermExpression b) (TermExpression c))"
      by (rule And_more [OF And_single [OF n(2)] kw(2) n(3)])
    then have "grammar_Or ([a] @ ''OR'' # ([b] @ ''AND'' # [c]))
        (OrExpression (TermExpression a) (AndExpression (TermExpression b) (TermExpression c)))"
      by (rule Or_more [OF Or_single [OF And_single [OF n(1)]] kw(1)])
    from grammar_complete [OF this]
    show "parse_attempt [a, ''OR'', b, ''AND'', c] =
        Inr (OrExpression (TermExpression a) (AndExpression (TermExpression b) (TermExpression c)), 5)"
      by simp
    have "grammar_Not (''NOT'' # [a]) (NotExpression (TermExpression a))"
      by (rule Not_not [OF kw(3) n(1)])
    then have "grammar_Or ((''NOT'' # [a]) @ ''AND'' # [b])
        (AndExpression (NotExpression (TermExpression a)) (TermExpression b))"
      by (intro Or_single And_more [OF And_single _ n(2)] kw(2))
    from grammar_complete [OF this]
    show "parse_attempt [''NOT'', a, ''AND'', b] =
        Inr (AndExpression (NotExpression (TermExpression a)) (TermExpression b), 4)"
      by simp
    have "grammar_Or ([a] @ ''OR'' # [b]) (OrExpression (TermExpression a) (TermExpression b))"
      by (rule Or_more [OF Or_single [OF And_single [OF n(1)]] kw(1) And_single [OF n(2)]])
    then have "grammar_Not (''('' # ([a] @ ''OR'' # [b]) @ ['')''])
        (OrExpression (TermExpression a) (TermExpression b))"
      by (intro Not_primary Primary_group)
    then have "grammar_Or ((''('' # ([a] @ ''OR'' # [b]) @ ['')'']) @ ''AND'' # [c])
        (AndExpression (OrExpression (TermExpression a) (TermExpression b)) (TermExpression c))"
      by (intro Or_single And_more [OF And_single _ n(3)] kw(2))
    from grammar_complete [OF this]
    show "parse_attempt [''('', a, ''OR'', b, '')'', ''AND'', c] =
        Inr (AndExpression (OrExpression (TermExpression a) (TermExpression b)) (TermExpression c), 7)"
      by simp
  qed
  have 5: "fst (parse ''Java OR Python AND Django'' this) =
     \<lparr>expression = Some (OrExpression (TermExpression ''Java'')
        (AndExpression (TermExpression ''Python'') (TermExpression ''Django''))),
      isValid = True, errorMessage = None\<rparr>"
    by code_simp
  have 6: "evaluate (OrExpression (TermExpression ''Java'')
        (AndExpression (TermExpression ''Python'') (TermExpression ''Django'')))
     [Some ''Python'', Some ''Django'']"
    by code_simp
  have 7: "fst (parse ''NOT NOT X'' this) =
     \<lparr>expression = Some (NotExpression (NotExpression (TermExpression ''X''))),
      isValid = True, errorMessage = None\<rparr>"
    by code_simp
  show ?thesis using 1 2 3 4 5 6 7 by blast
qed

theorem precedence_by_grammar_witness:
  "grammar_Or [''a'', ''OR'', ''b'']
     (OrExpression (TermExpression ''a'') (TermExpression ''b'')) \<and>
   parse_attempt [''x'', ''OR'', ''y'', ''AND'', ''z''] =
     Inr (OrExpression (TermExpression ''x'')
            (AndExpression (TermExpression ''y'') (TermExpression ''z'')), 5) \<and>
   parse_attempt [''NOT'', ''x'', ''AND'', ''y''] =
     Inr (AndExpression (NotExpression (TermExpression ''x'')) (TermExpression ''y''), 4) \<and>
   parse_attempt [''('', ''x'', ''OR'', ''y'', '')'', ''AND'', ''z''] =
     Inr (AndExpression (OrExpression (TermExpression ''x'') (TermExpression ''y''))
            (TermExpression ''z''), 7)"
proof -
  let ?p = "\<lparr>tokens = [], currentIndex = 0\<rparr>"
  let ?e = "OrExpression (TermExpression ''a'') (TermExpression ''b'')"
  have h1: "isValid (fst (parse ''a OR b'' ?p))" by code_simp
  have h2: "expression (fst (parse ''a OR b'' ?p)) = Some ?e" by code_simp
  have h3: "tokenize ''a OR b'' = [''a'', ''OR'', ''b'']" by code_simp
  have h4: "plainTerm ''x''" "plainTerm ''y''" "plainTerm ''z''" by code_simp+
  show ?thesis
    using precedence_by_grammar [of "''a OR b''" ?p ?e "[]" ?e ?e "''x''" "''y''" "''z''"]
      h1 h2 h3 h4
    by simp
qed

section \<open>Blank input\<close>

lemma trim_empty_iff: "trim s = [] \<longleftrightarrow> (\<forall>c\<in>set s. isWhiteSpace c)"
proof
  assume "trim s = []"
  then have "dropWhile isWhiteSpace s = []"
    by (simp add: trim_def dropWhile_eq_Nil_conv)
      (metis dropWhile_eq_Nil_conv hd_dropWhile list.set_sel(1) set_rev)
  then show "\<forall>c\<in>set s. isWhiteSpace c" by (simp add: dropWhile_eq_Nil_conv)
next
  assume "\<forall>c\<in>set s. isWhiteSpace c"
  then have h: "dropWhile isWhiteSpace s = []" by (simp add: dropWhile_eq_Nil_conv)
  show "trim s = []" unfolding trim_def h by simp
qed

text \<open>
  C6. For an input that is empty or holds only white space, \<open>parse\<close> returns no expression,
  \<open>isValid = true\<close> and no error message. The tokenizer is not run: the parser object comes
  back as it was, its \<open>tokens\<close> field not assigned.
\<close>

theorem parse_blank_input:
  "s = [] \<or> (\<forall>c\<in>set s. isWhiteSpace c) \<Longrightarrow>
     parse s this = (\<lparr>expression = None, isValid = True, errorMessage = None\<rparr>, this)"
  by (auto simp: parse_def trim_empty_iff)

theorem parse_blank_input_witness:
  "isWhiteSpace (CHR '' '') \<and>
   parse ''   '' \<lparr>tokens = [''x''], currentIndex = 1\<rparr> =
     (\<lparr>expression = None, isValid = True, errorMessage = None\<rparr>,
      \<lparr>tokens = [''x''], currentIndex = 1\<rparr>)"
  using parse_blank_input [of "''   ''" "\<lparr>tokens = [''x''], currentIndex = 1\<rparr>"]
  by (simp add: isWhiteSpace_def)

section \<open>Well-formed input, determinism and keywords\<close>

lemma grammar_nonempty:
  "(grammar_Or ts e \<longrightarrow> ts \<noteq> []) \<and> (grammar_And ts e \<longrightarrow> ts \<noteq> []) \<and>
   (grammar_Not ts e \<longrightarrow> ts \<noteq> []) \<and> (grammar_Primary ts e \<longrightarrow> ts \<noteq> [])"
  by (induction rule: grammar_Or_grammar_And_grammar_Not_grammar_Primary.induct) simp_all

lemma grammar_terms_plain:
  "(grammar_Or ts e \<longrightarrow> (\<forall>t\<in>set (termsOf e). plainTerm t)) \<and>
   (grammar_And ts e \<longrightarrow> (\<forall>t\<in>set (termsOf e). plainTerm t)) \<and>
   (grammar_Not ts e \<longrightarrow> (\<forall>t\<in>set (termsOf e). plainTerm t)) \<and>
   (grammar_Primary ts e \<longrightarrow> (\<forall>t\<in>set (termsOf e). plainTerm t))"
  by (induction rule: grammar_Or_grammar_And_grammar_Not_grammar_Primary.induct) auto

lemma whitespace_not_special:
  "isWhiteSpace c \<Longrightarrow> c \<noteq> CHR 0x22 \<and> c \<noteq> CHR ''('' \<and> c \<noteq> CHR '')''"
  by (auto simp: isWhiteSpace_def)

lemma fold_whitespace:
  "\<forall>c\<in>set s. isWhiteSpace c \<Longrightarrow> \<forall>c\<in>set cur. isWhiteSpace c \<Longrightarrow>
     \<exists>cur'. fold tokenize_step s (toks, cur, False) = (toks, cur', False) \<and>
       (\<forall>c\<in>set cur'. isWhiteSpace c)"
proof (induction s arbitrary: cur)
  case Nil
  then show ?case by simp
next
  case (Cons c s)
  then have c: "isWhiteSpace c" and t: "trim cur = []" by (simp_all add: trim_empty_iff)
  show ?case
  proof (cases "c = CHR '' '' \<or> c = CHR 0x09")
    case True
    then have "tokenize_step c (toks, cur, False) = (toks, cur, False)"
      using t whitespace_not_special [OF c] by auto
    then show ?thesis using Cons by simp
  next
    case False
    then have "tokenize_step c (toks, cur, False) = (toks, cur @ [c], False)"
      using whitespace_not_special [OF c] by auto
    moreover have "\<forall>x\<in>set (cur @ [c]). isWhiteSpace x" using Cons.prems c by simp
    ultimately show ?thesis using Cons.IH [of "cur @ [c]"] Cons.prems by simp
  qed
qed

lemma tokenize_blank: "trim s = [] \<Longrightarrow> tokenize s = []"
proof -
  assume "trim s = []"
  then have "\<forall>c\<in>set s. isWhiteSpace c" by (simp add: trim_empty_iff)
  from fold_whitespace [OF this, of "[]" "[]"]
  obtain cur' where "fold tokenize_step s ([], [], False) = ([], cur', False)"
    "\<forall>c\<in>set cur'. isWhiteSpace c" by auto
  then show ?thesis by (simp add: tokenize_def trim_empty_iff)
qed

lemma parse_result_independent: "fst (parse s this) = fst (parse s that)"
  by (simp add: parse_def Let_def split: sum.splits prod.splits)

text \<open>
  C8. The result of \<open>parse\<close> is a function of the input string alone: it is the same from
  any state of the parser object, so also when the call is repeated on the object the
  first call left. An input is well formed when its token list has a derivation in the
  grammar; then \<open>parse\<close> returns \<open>isValid = true\<close>, with the tree of the derivation.
\<close>

theorem parse_deterministic:
  "fst (parse s this) = fst (parse s that) \<and>
   fst (parse s (snd (parse s this))) = fst (parse s this) \<and>
   (grammar_Or (tokenize s) e \<longrightarrow>
      fst (parse s this) = \<lparr>expression = Some e, isValid = True, errorMessage = None\<rparr>)"
proof -
  have "fst (parse s this) = \<lparr>expression = Some e, isValid = True, errorMessage = None\<rparr>"
    if g: "grammar_Or (tokenize s) e"
  proof -
    from g have "tokenize s \<noteq> []" using grammar_nonempty by blast
    then have "trim s \<noteq> []" "s \<noteq> []" using tokenize_blank by (auto simp: trim_def)
    then show ?thesis using grammar_complete [OF g] by (simp add: parse_def Let_def)
  qed
  then show ?thesis using parse_result_independent by blast
qed

theorem parse_deterministic_witness:
  "grammar_Or (tokenize ''a OR b'') (OrExpression (TermExpression ''a'') (TermExpression ''b'')) \<and>
   fst (parse ''a OR b'' \<lparr>tokens = [], currentIndex = 0\<rparr>) =
     \<lparr>expression = Some (OrExpression (TermExpression ''a'') (TermExpression ''b'')),
      isValid = True, errorMessage = None\<rparr>"
proof -
  have t: "tokenize ''a OR b'' = [''a''] @ ''OR'' # [''b'']" by code_simp
  have p: "plainTerm ''a''" "plainTerm ''b''" by code_simp+
  have k: "isOperator (Some ''OR'') ''OR''" by code_simp
  have g: "grammar_Or (tokenize ''a OR b'') (OrExpression (TermExpression ''a'') (TermExpression ''b''))"
    unfolding t using p k
    by (intro Or_more Or_single And_single Not_primary Primary_term)
  show ?thesis
    using g parse_deterministic [of "''a OR b''" "\<lparr>tokens = [], currentIndex = 0\<rparr>"
        "\<lparr>tokens = [], currentIndex = 0\<rparr>"
        "OrExpression (TermExpression ''a'') (TermExpression ''b'')"]
    by simp
qed

text \<open>
  C9. Quotes do not protect a keyword: the tokenizer drops the quote characters, and the
  parser recognises a keyword by the upper-cased token text only. The quoted input
  \<open>"NOT"\<close> is the single token \<open>NOT\<close>, and \<open>parse\<close> returns \<open>isValid = false\<close> on it. No tree
  of a valid result holds a term whose text is \<open>AND\<close>, \<open>OR\<close> or \<open>NOT\<close> in any letter case.
\<close>

theorem quoting_keeps_keywords:
  "(isValid (fst (parse s this)) \<and> expression (fst (parse s this)) = Some e \<and>
      t \<in> set (termsOf e) \<longrightarrow>
      \<not> isOperator (Some t) ''AND'' \<and> \<not> isOperator (Some t) ''OR'' \<and>
      \<not> isOperator (Some t) ''NOT'') \<and>
   tokenize ([CHR 0x22] @ ''NOT'' @ [CHR 0x22]) = [''NOT''] \<and>
   \<not> isValid (fst (parse ([CHR 0x22] @ ''NOT'' @ [CHR 0x22]) this)) \<and>
   \<not> isValid (fst (parse ([CHR 0x22] @ ''not'' @ [CHR 0x22]) this))"
proof -
  have 1: "\<not> isOperator (Some t) ''AND'' \<and> \<not> isOperator (Some t) ''OR'' \<and>
      \<not> isOperator (Some t) ''NOT''"
    if "isValid (fst (parse s this))" "expression (fst (parse s this)) = Some e"
      "t \<in> set (termsOf e)"
  proof -
    from valid_parse_attempt [OF that(1,2)] grammar_sound have "grammar_Or (tokenize s) e" by blast
    with grammar_terms_plain that(3) have "plainTerm t" by blast
    then show ?thesis by (simp add: plainTerm_def)
  qed
  have 2: "tokenize ([CHR 0x22] @ ''NOT'' @ [CHR 0x22]) = [''NOT'']" by code_simp
  have 3: "\<not> isValid (fst (parse ([CHR 0x22] @ ''NOT'' @ [CHR 0x22]) this))" by code_simp
  have 4: "\<not> isValid (fst (parse ([CHR 0x22] @ ''not'' @ [CHR 0x22]) this))" by code_simp
  show ?thesis using 1 2 3 4 by blast
qed

theorem quoting_keeps_keywords_witness:
  "isValid (fst (parse ''a AND b'' \<lparr>tokens = [], currentIndex = 0\<rparr>)) \<and>
   expression (fst (parse ''a AND b'' \<lparr>tokens = [], currentIndex = 0\<rparr>)) =
     Some (AndExpression (TermExpression ''a'') (TermExpression ''b'')) \<and>
   ''b'' \<in> set (termsOf (AndExpression (TermExpression ''a'') (TermExpression ''b''))) \<and>
   \<not> isOperator (Some ''b'') ''AND'' \<and> \<not> isOperator (Some ''b'') ''OR'' \<and>
   \<not> isOperator (Some ''b'') ''NOT''"
proof -
  let ?p = "\<lparr>tokens = [], currentIndex = 0\<rparr>"
  let ?e = "AndExpression (TermExpression ''a'') (TermExpression ''b'')"
  have h1: "isValid (fst (parse ''a AND b'' ?p))" by code_simp
  have h2: "expression (fst (parse ''a AND b'' ?p)) = Some ?e" by code_simp
  show ?thesis
    using quoting_keeps_keywords [of "''a AND b''" ?p ?e "''b''"] h1 h2 by simp
qed

section \<open>Failure and termination\<close>

text \<open>
  C1. \<open>parse\<close> has a result on every string; an error thrown in the \<open>try\<close> block never
  leaves it. Whenever the result is not valid, the \<open>try\<close> block has thrown, the result
  carries the message of that error, and its expression is the term node of the whole
  input string; that node is true on a tag list holding the input string, or any tag
  equal to it after lower-casing and trimming.
\<close>

theorem parse_failure_fallback:
  "(\<not> isValid (fst (parse s this)) \<longrightarrow>
      (\<exists>msg i. parse_attempt (tokenize s) = Inl (msg, i) \<and>
         fst (parse s this) =
           \<lparr>expression = Some (TermExpression s), isValid = False, errorMessage = Some msg\<rparr>)) \<and>
   (trim s \<noteq> [] \<and> parse_attempt (tokenize s) = Inl (msg, i) \<longrightarrow>
      parse s this =
        (\<lparr>expression = Some (TermExpression s), isValid = False, errorMessage = Some msg\<rparr>,
         \<lparr>tokens = tokenize s, currentIndex = i\<rparr>)) \<and>
   evaluate (TermExpression s) [Some s] \<and>
   (trim (toLowerCase tag) = trim (toLowerCase s) \<longrightarrow> evaluate (TermExpression s) [Some tag])"
proof -
  have 1: "\<exists>msg i. parse_attempt (tokenize s) = Inl (msg, i) \<and>
         fst (parse s this) =
           \<lparr>expression = Some (TermExpression s), isValid = False, errorMessage = Some msg\<rparr>"
    if "\<not> isValid (fst (parse s this))"
    using that by (auto simp: parse_def Let_def split: if_splits sum.splits)
  have 2: "parse s this =
        (\<lparr>expression = Some (TermExpression s), isValid = False, errorMessage = Some msg\<rparr>,
         \<lparr>tokens = tokenize s, currentIndex = i\<rparr>)"
    if "trim s \<noteq> []" "parse_attempt (tokenize s) = Inl (msg, i)"
  proof -
    from that(1) have "s \<noteq> []" by (auto simp: trim_def)
    with that show ?thesis by (simp add: parse_def Let_def)
  qed
  have 3: "evaluate (TermExpression s) [Some tag]"
    if "trim (toLowerCase tag) = trim (toLowerCase s)" for tag
    using that by (simp add: termMatches_def)
  show ?thesis using 1 2 3 by blast
qed

theorem parse_failure_fallback_witness:
  "\<not> isValid (fst (parse ''Python AND'' \<lparr>tokens = [], currentIndex = 0\<rparr>)) \<and>
   trim ''Python AND'' \<noteq> [] \<and>
   parse_attempt (tokenize ''Python AND'') = Inl (''Unexpected end of expression'', 2) \<and>
   parse ''Python AND'' \<lparr>tokens = [], currentIndex = 0\<rparr> =
     (\<lparr>expression = Some (TermExpression ''Python AND''), isValid = False,
       errorMessage = Some ''Unexpected end of expression''\<rparr>,
      \<lparr>tokens = [''Python'', ''AND''], currentIndex = 2\<rparr>) \<and>
   trim (toLowerCase '' python and'') = trim (toLowerCase ''Python AND'') \<and>
   evaluate (TermExpression ''Python AND'') [Some '' python and'']"
proof -
  let ?p = "\<lparr>tokens = [], currentIndex = 0\<rparr>"
  have h1: "\<not> isValid (fst (parse ''Python AND'' ?p))" by code_simp
  have h2: "trim ''Python AND'' \<noteq> []" by code_simp
  have h3: "parse_attempt (tokenize ''Python AND'') = Inl (''Unexpected end of expression'', 2)"
    by code_simp
  have h4: "trim (toLowerCase '' python and'') = trim (toLowerCase ''Python AND'')" by code_simp
  have h5: "tokenize ''Python AND'' = [''Python'', ''AND'']" by code_simp
  show ?thesis
    using parse_failure_fallback [of "''Python AND''" ?p "''Unexpected end of expression''" 2
        "'' python and''"] h1 h2 h3 h4 h5
    by simp
qed

text \<open>
  C7. Every call of every production terminates: each argument lies in the accessible
  part of the call relation. A production that returns a tree has consumed at least one
  token and has not passed the end of the token list, and a loop never moves the cursor
  back, so every call nested in another sees fewer remaining tokens.
\<close>

theorem parser_terminates:
  "parser_dom x \<and>
   (parseOrExpression toks i = Inr (e, j) \<longrightarrow> i < j \<and> j \<le> length toks) \<and>
   (parseAndExpression toks i = Inr (e, j) \<longrightarrow> i < j \<and> j \<le> length toks) \<and>
   (parseNotExpression toks i = Inr (e, j) \<longrightarrow> i < j \<and> j \<le> length toks) \<and>
   (parsePrimaryExpression toks i = Inr (e, j) \<longrightarrow> i < j \<and> j \<le> length toks) \<and>
   (parseOrLoop toks left i = Inr (e, j) \<longrightarrow> i \<le> j) \<and>
   (parseAndLoop toks left i = Inr (e, j) \<longrightarrow> i \<le> j) \<and>
   (currentToken toks i = Some t \<longrightarrow> length toks - (i + 1) < length toks - i)"
proof (intro conjI impI)
  show "parser_dom x" by (rule parser_dom_total)
qed (auto dest: progress currentToken_Some_less)

theorem parser_terminates_witness:
  "parseOrExpression [''a'', ''AND'', ''b''] 0 =
     Inr (AndExpression (TermExpression ''a'') (TermExpression ''b''), 3) \<and>
   currentToken [''a'', ''AND'', ''b''] 0 = Some ''a'' \<and>
   (0::nat) < 3 \<and> 3 \<le> length [''a'', ''AND'', ''b''] \<and>
   length [''a'', ''AND'', ''b''] - (0 + 1) < length [''a'', ''AND'', ''b''] - 0"
proof -
  have h1: "parseOrExpression [''a'', ''AND'', ''b''] 0 =
     Inr (AndExpression (TermExpression ''a'') (TermExpression ''b''), 3)" by code_simp
  have h2: "currentToken [''a'', ''AND'', ''b''] 0 = Some ''a''" by code_simp
  show ?thesis
    using h1 h2
      parser_terminates [of "Inl (Inl ([''a'', ''AND'', ''b''], 0))" "[''a'', ''AND'', ''b'']" 0
        "AndExpression (TermExpression ''a'') (TermExpression ''b'')" 3 left "''a''"]
    by simp
qed

section \<open>Error conditions\<close>














section \<open>Properties of the tokenizer\<close>

lemma fold_plain:
  "list_all plainChar s \<Longrightarrow>
     fold tokenize_step s (toks, cur, False) = (toks, cur @ s, False)"
  by (induction s arbitrary: cur) (auto simp: plainChar_def)

lemma tokenize_plain:
  "list_all plainChar s \<Longrightarrow> tokenize s = (if trim s = [] then [] else [trim s])"
  by (simp add: tokenize_def fold_plain)

lemma tokenize_separated:
  assumes u: "list_all plainChar u" and v: "list_all plainChar v"
    and sp: "sp = CHR '' '' \<or> sp = CHR 0x09" and nu: "trim u \<noteq> []"
  shows "tokenize (u @ sp # v) = (if trim v = [] then [trim u] else [trim u, trim v])"
proof -
  have "fold tokenize_step (u @ sp # v) ([], [], False) =
      fold tokenize_step v (tokenize_step sp ([], u, False))"
    using fold_plain [OF u, of "[]" "[]"] by simp
  also have "tokenize_step sp ([], u, False) = ([trim u], [], False)"
    using sp nu by auto
  also have "fold tokenize_step v ([trim u], [], False) = ([trim u], v, False)"
    using fold_plain [OF v, of "[trim u]" "[]"] by simp
  finally show ?thesis by (simp add: tokenize_def)
qed

lemma trim_around:
  assumes "trim u \<noteq> []" "trim v \<noteq> []"
  shows "trim (u @ c # v) = dropWhile isWhiteSpace u @ c # rev (dropWhile isWhiteSpace (rev v))"
proof -
  from assms(1) obtain a where a: "a \<in> set u" "\<not> isWhiteSpace a"
    by (auto simp: trim_empty_iff)
  from assms(2) obtain b where b: "b \<in> set (rev v)" "\<not> isWhiteSpace b"
    by (auto simp: trim_empty_iff)
  have 1: "dropWhile isWhiteSpace (u @ c # v) = dropWhile isWhiteSpace u @ c # v"
    using a by (simp add: dropWhile_append1)
  have "dropWhile isWhiteSpace (rev v @ c # rev (dropWhile isWhiteSpace u)) =
      dropWhile isWhiteSpace (rev v) @ c # rev (dropWhile isWhiteSpace u)"
    using b by (simp add: dropWhile_append1)
  with 1 show ?thesis by (simp add: trim_def)
qed

text \<open>
  C10. Outside quotes a character other than the quote, the two parentheses, the space
  and the tab is appended to the buffer; the space and the tab flush the buffer. A newline
  is such an appended character. So an input made of such characters only is one token,
  its trimmed text (or no token when that is empty); two words joined by a newline, or by
  any other such character, are one token that holds the joining character between them,
  where the same two words joined by a space or a tab are two tokens. \<open>Python\<close>, newline,
  \<open>Django\<close> is one token that holds the newline.
\<close>

theorem newline_joins_token:
  "(c \<notin> {CHR 0x22, CHR ''('', CHR '')'', CHR '' '', CHR 0x09} \<longrightarrow>
      tokenize_step c (toks, cur, False) = (toks, cur @ [c], False)) \<and>
   (c \<in> {CHR '' '', CHR 0x09} \<longrightarrow>
      tokenize_step c (toks, cur, False) =
        (if trim cur \<noteq> [] then (toks @ [trim cur], [], False) else (toks, cur, False))) \<and>
   tokenize_step (CHR 0x0A) (toks, cur, False) = (toks, cur @ [CHR 0x0A], False) \<and>
   tokenize (''Python'' @ [CHR 0x0A] @ ''Django'') = [''Python'' @ [CHR 0x0A] @ ''Django''] \<and>
   (list_all plainChar s \<longrightarrow> tokenize s = (if trim s = [] then [] else [trim s])) \<and>
   (list_all plainChar u \<and> list_all plainChar v \<and> trim u \<noteq> [] \<and> trim v \<noteq> [] \<longrightarrow>
      tokenize (u @ CHR 0x0A # v) =
        [dropWhile isWhiteSpace u @ CHR 0x0A # rev (dropWhile isWhiteSpace (rev v))] \<and>
      (plainChar c \<longrightarrow>
         tokenize (u @ c # v) =
           [dropWhile isWhiteSpace u @ c # rev (dropWhile isWhiteSpace (rev v))]) \<and>
      (c = CHR '' '' \<or> c = CHR 0x09 \<longrightarrow> tokenize (u @ c # v) = [trim u, trim v]))"
proof -
  have ex: "tokenize (''Python'' @ [CHR 0x0A] @ ''Django'') = [''Python'' @ [CHR 0x0A] @ ''Django'']"
    by code_simp
  have steps: "(c \<notin> {CHR 0x22, CHR ''('', CHR '')'', CHR '' '', CHR 0x09} \<longrightarrow>
      tokenize_step c (toks, cur, False) = (toks, cur @ [c], False)) \<and>
   (c \<in> {CHR '' '', CHR 0x09} \<longrightarrow>
      tokenize_step c (toks, cur, False) =
        (if trim cur \<noteq> [] then (toks @ [trim cur], [], False) else (toks, cur, False))) \<and>
   tokenize_step (CHR 0x0A) (toks, cur, False) = (toks, cur @ [CHR 0x0A], False)"
    by auto
  have one: "tokenize (u @ d # v) =
      [dropWhile isWhiteSpace u @ d # rev (dropWhile isWhiteSpace (rev v))]"
    if "list_all plainChar u" "list_all plainChar v" "trim u \<noteq> []" "trim v \<noteq> []"
      "plainChar d" for d
  proof -
    have "list_all plainChar (u @ d # v)" using that by simp
    moreover have "trim (u @ d # v) \<noteq> []" using that(3,4) by (simp add: trim_around)
    ultimately show ?thesis using that(3,4) by (simp add: tokenize_plain trim_around)
  qed
  have lf: "plainChar (CHR 0x0A)" by (simp add: plainChar_def)
  have two: "tokenize (u @ c # v) = [trim u, trim v]"
    if "list_all plainChar u" "list_all plainChar v" "trim u \<noteq> []" "trim v \<noteq> []"
      "c = CHR '' '' \<or> c = CHR 0x09"
    using tokenize_separated [OF that(1,2,5,3)] that(4) by simp
  show ?thesis using ex steps tokenize_plain [of s] one lf two by blast
qed

theorem newline_joins_token_witness:
  "CHR 0x0D \<notin> {CHR 0x22, CHR ''('', CHR '')'', CHR '' '', CHR 0x09} \<and>
   tokenize_step (CHR 0x0D) ([''a''], ''b'', False) = ([''a''], ''b'' @ [CHR 0x0D], False) \<and>
   CHR 0x09 \<in> {CHR '' '', CHR 0x09} \<and>
   tokenize_step (CHR 0x09) ([''a''], ''b'', False) = ([''a'', ''b''], [], False) \<and>
   list_all plainChar ''Ruby'' \<and> list_all plainChar ''Rails'' \<and>
   trim ''Ruby'' \<noteq> [] \<and> trim ''Rails'' \<noteq> [] \<and>
   tokenize ''Ruby'' = [''Ruby''] \<and>
   tokenize (''Ruby'' @ CHR 0x0A # ''Rails'') = [''Ruby'' @ CHR 0x0A # ''Rails''] \<and>
   tokenize (''Ruby'' @ CHR 0x0D # ''Rails'') = [''Ruby'' @ CHR 0x0D # ''Rails''] \<and>
   tokenize (''Ruby'' @ CHR 0x09 # ''Rails'') = [''Ruby'', ''Rails'']"
proof -
  have p: "list_all plainChar ''Ruby''" "list_all plainChar ''Rails''"
    "trim ''Ruby'' \<noteq> []" "trim ''Rails'' \<noteq> []" "plainChar (CHR 0x0D)"
    by code_simp+
  have t: "trim ''Ruby'' = ''Ruby''" "trim ''Rails'' = ''Rails''"
    "dropWhile isWhiteSpace ''Ruby'' = ''Ruby''"
    "rev (dropWhile isWhiteSpace (rev ''Rails'')) = ''Rails''"
    by code_simp+
  note w = newline_joins_token
  have a: "tokenize_step (CHR 0x0D) ([''a''], ''b'', False) = ([''a''], ''b'' @ [CHR 0x0D], False)"
    using w [of "CHR 0x0D" "[''a'']" "''b''" "''Ruby''" "''Ruby''" "''Rails''"] by simp
  have b: "tokenize_step (CHR 0x09) ([''a''], ''b'', False) = ([''a'', ''b''], [], False)"
    using w [of "CHR 0x09" "[''a'']" "''b''" "''Ruby''" "''Ruby''" "''Rails''"]
    by (simp add: trim_def isWhiteSpace_def)
  have c: "tokenize ''Ruby'' = [''Ruby'']"
    "tokenize (''Ruby'' @ CHR 0x0A # ''Rails'') = [''Ruby'' @ CHR 0x0A # ''Rails'']"
    "tokenize (''Ruby'' @ CHR 0x0D # ''Rails'') = [''Ruby'' @ CHR 0x0D # ''Rails'']"
    using w [of "CHR 0x0D" "[''a'']" "''b''" "''Ruby''" "''Ruby''" "''Rails''"] p t
    by simp_all
  have d: "tokenize (''Ruby'' @ CHR 0x09 # ''Rails'') = [''Ruby'', ''Rails'']"
    using w [of "CHR 0x09" "[''a'']" "''b''" "''Ruby''" "''Ruby''" "''Rails''"] p t
    by simp
  show ?thesis using a b c d p by simp
qed

lemma set_trim_subset: "set (trim s) \<subseteq> set s"
proof
  fix x assume "x \<in> set (trim s)"
  then have "x \<in> set (dropWhile isWhiteSpace (rev (dropWhile isWhiteSpace s)))"
    by (simp add: trim_def)
  then have "x \<in> set (dropWhile isWhiteSpace s)"
    using set_dropWhileD by fastforce
  then show "x \<in> set s" by (rule set_dropWhileD)
qed

lemma quote_free_step: "quote_free st \<Longrightarrow> quote_free (tokenize_step c st)"
  using set_trim_subset by (cases st) (auto simp: quote_free_def)

lemma quote_free_fold: "quote_free st \<Longrightarrow> quote_free (fold tokenize_step s st)"
  by (induction s arbitrary: st) (simp_all add: quote_free_step)

lemma tokenize_no_quote: "tok \<in> set (tokenize s) \<Longrightarrow> CHR 0x22 \<notin> set tok"
proof -
  have "quote_free (fold tokenize_step s ([], [], False))"
    by (rule quote_free_fold) (simp add: quote_free_def)
  then show "tok \<in> set (tokenize s) \<Longrightarrow> CHR 0x22 \<notin> set tok"
    using set_trim_subset
    by (cases "fold tokenize_step s ([], [], False)")
      (auto simp: tokenize_def quote_free_def split: if_splits)
qed

lemma fold_inside_quotes:
  "CHR 0x22 \<notin> set rest \<Longrightarrow>
     fold tokenize_step rest (toks, cur, True) = (toks, cur @ rest, True)"
  by (induction rest arbitrary: cur) auto

text \<open>
  C5. No token holds a quote character: a quote only toggles \<open>inQuotes\<close>. While
  \<open>inQuotes\<close> is set every other character, white space and parentheses included, is
  appended to the buffer, so the quoted \<open>Machine Learning\<close> is one token. Outside quotes a
  parenthesis first pushes the trimmed buffer, if that is not empty, and then itself as a
  token of one character. After an unmatched quote the rest of the input, when it holds no
  further quote, goes into the buffer whole and is pushed at the end like any last token;
  the tokenizer has no error result.
\<close>

theorem tokenizer_quotes_and_parens:
  "(\<forall>tok\<in>set (tokenize s). CHR 0x22 \<notin> set tok) \<and>
   tokenize_step (CHR 0x22) (toks, cur, q) = (toks, cur, \<not> q) \<and>
   (c \<noteq> CHR 0x22 \<longrightarrow> tokenize_step c (toks, cur, True) = (toks, cur @ [c], True)) \<and>
   tokenize ([CHR 0x22] @ ''Machine Learning'' @ [CHR 0x22]) = [''Machine Learning''] \<and>
   (c = CHR ''('' \<or> c = CHR '')'' \<longrightarrow>
      tokenize_step c (toks, cur, False) =
        (if trim cur \<noteq> [] then (toks @ [trim cur, [c]], [], False)
         else (toks @ [[c]], cur, False))) \<and>
   (CHR 0x22 \<notin> set rest \<longrightarrow>
      fold tokenize_step rest (toks, cur, True) = (toks, cur @ rest, True) \<and>
      (fold tokenize_step pre ([], [], False) = (toks, cur, False) \<longrightarrow>
         tokenize (pre @ [CHR 0x22] @ rest) =
           (if trim (cur @ rest) \<noteq> [] then toks @ [trim (cur @ rest)] else toks)))"
proof -
  have a: "\<forall>tok\<in>set (tokenize s). CHR 0x22 \<notin> set tok"
    using tokenize_no_quote by blast
  have b: "tokenize ([CHR 0x22] @ ''Machine Learning'' @ [CHR 0x22]) = [''Machine Learning'']"
    by code_simp
  have c: "tokenize (pre @ [CHR 0x22] @ rest) =
           (if trim (cur @ rest) \<noteq> [] then toks @ [trim (cur @ rest)] else toks)"
    if "CHR 0x22 \<notin> set rest" "fold tokenize_step pre ([], [], False) = (toks, cur, False)"
    using that by (simp add: tokenize_def fold_inside_quotes)
  show ?thesis using a b c by (simp add: fold_inside_quotes)
qed

theorem tokenizer_quotes_and_parens_witness:
  "tokenize ([CHR 0x22] @ ''a b'' @ [CHR 0x22] @ ''(c)'') = [''a b'', ''('', ''c'', '')''] \<and>
   tokenize_step (CHR '' '') ([], ''a'', True) = ([], ''a '', True) \<and>
   tokenize_step (CHR ''('') ([], ''a'', False) = ([''a'', ''(''], [], False) \<and>
   fold tokenize_step ''x'' ([], [], False) = ([], ''x'', False) \<and>
   tokenize (''x'' @ [CHR 0x22] @ '' (y'') = [''x (y'']"
  using tokenizer_quotes_and_parens
    [of "[CHR 0x22] @ ''a b'' @ [CHR 0x22] @ ''(c)''" "[]" "''a''" True "CHR '' ''" "'' (y''" "''x''"]
    tokenizer_quotes_and_parens
    [of "[]" "[]" "''a''" False "CHR ''(''" "[]" "[]"]
    tokenizer_quotes_and_parens
    [of "[]" "[]" "''x''" False "CHR ''(''" "'' (y''" "''x''"]
  by (simp add: trim_def isWhiteSpace_def tokenize_def)

section \<open>Properties of the evaluator\<close>

lemma isWhiteSpace_lowerChar [simp]: "isWhiteSpace (lowerChar c) = isWhiteSpace c"
  by (auto simp: isWhiteSpace_def lowerChar_def Let_def)

lemma dropWhile_ws_lower:
  "dropWhile isWhiteSpace (map lowerChar s) = map lowerChar (dropWhile isWhiteSpace s)"
  by (induction s) auto

lemma trim_toLowerCase: "trim (toLowerCase s) = toLowerCase (trim s)"
  by (simp add: trim_def toLowerCase_def dropWhile_ws_lower rev_map)

lemma evaluate_term_iff:
  "evaluate (TermExpression text) tags \<longleftrightarrow>
     (\<exists>t. Some t \<in> set tags \<and> toLowerCase (trim t) = toLowerCase (trim text))"
  by (auto simp: list_ex_iff termMatches_def trim_toLowerCase split: option.splits)

text \<open>
  C3. A term node is true on a tag list exactly when some tag that is not null, trimmed
  and lower-cased, equals the trimmed, lower-cased text of the term. The match is on the
  whole string: \<open>Py\<close> does not match \<open>Python\<close>, \<open>Post\<close> does not match \<open>PostgreSQL\<close>, \<open>C\<close>
  does not match \<open>React\<close>. A null tag is passed over, and on the empty list every term is
  false.
\<close>

theorem term_exact_match:
  "(evaluate (TermExpression text) tags \<longleftrightarrow>
     (\<exists>t. Some t \<in> set tags \<and> toLowerCase (trim t) = toLowerCase (trim text))) \<and>
   \<not> evaluate (TermExpression ''Py'') [Some ''Python''] \<and>
   \<not> evaluate (TermExpression ''Post'') [Some ''PostgreSQL''] \<and>
   \<not> evaluate (TermExpression ''C'') [Some ''React'', Some ''Node''] \<and>
   evaluate (TermExpression ''C'') [Some ''C'', Some ''React''] \<and>
   evaluate (TermExpression ''python'') [None, Some '' Python ''] \<and>
   evaluate (TermExpression text) (None # tags) = evaluate (TermExpression text) tags \<and>
   \<not> evaluate (TermExpression text) []"
proof -
  have 1: "\<not> evaluate (TermExpression ''Py'') [Some ''Python'']" by code_simp
  have 2: "\<not> evaluate (TermExpression ''Post'') [Some ''PostgreSQL'']" by code_simp
  have 3: "\<not> evaluate (TermExpression ''C'') [Some ''React'', Some ''Node'']" by code_simp
  have 4: "evaluate (TermExpression ''C'') [Some ''C'', Some ''React'']" by code_simp
  have 5: "evaluate (TermExpression ''python'') [None, Some '' Python '']" by code_simp
  have 6: "evaluate (TermExpression text) (None # tags) = evaluate (TermExpression text) tags"
    by (simp add: termMatches_def)
  have 7: "\<not> evaluate (TermExpression text) []" by simp
  from evaluate_term_iff 1 2 3 4 5 6 7 show ?thesis by blast
qed

end
